theory Spec2Isabelle
  imports Main "HOL-Library.AList"
begin

section \<open>The node store of \<open>src/api/file-operations.ts\<close>\<close>

subsection \<open>Data model (\<open>src/types/file-types.ts\<close>)\<close>

text \<open>
  \<open>INode = File | Directory\<close> is a union tagged by the field \<open>type\<close>; the constructor
  is the tag. The field \<open>id\<close> is called \<open>node_id\<close> here, since \<open>id\<close> is the identity
  function of HOL. A file has no field \<open>children\<close>, so the model reads the children of
  a node by a \<open>case\<close> on the constructor, as the source reads them behind the test
  \<open>node.type === "directory"\<close>.
\<close>

datatype INode =
    File (node_id: string) (name: string)
  | Directory (node_id: string) (name: string) (children: "string list")

text \<open>
  The field \<open>type\<close> of a node, and the field \<open>children\<close> as JavaScript reads it:
  \<open>None\<close> is the \<open>undefined\<close> that a file gives.
\<close>

fun type_of :: "INode \<Rightarrow> string" where
  "type_of (File _ _) = ''file''"
| "type_of (Directory _ _ _) = ''directory''"

fun children_of :: "INode \<Rightarrow> string list option" where
  "children_of (File _ _) = None"
| "children_of (Directory _ _ cs) = Some cs"

text \<open>\<open>SearchResult = INode & { path: string }\<close>: the fields of the node, and a path.\<close>

record SearchResult =
  node :: INode
  path :: string

text \<open>
  \<open>DATA\<close> is a JavaScript \<open>Map\<close> from strings to nodes. A \<open>Map\<close> iterates its entries in the
  order of their first insertion, \<open>set\<close> on a key that is present replaces the value
  where it stands, \<open>set\<close> on a new key appends, and \<open>delete\<close> removes the entry. The
  model is the list of entries in iteration order: \<open>map_of\<close> is \<open>DATA.get\<close>,
  \<open>AList.update\<close> is \<open>DATA.set\<close> and \<open>AList.delete\<close> is \<open>DATA.delete\<close>. The module-level
  variable becomes a state that every operation takes and returns.

  The values of the map are object references. No operation ever stores one object
  under two keys, so the only place where the sharing shows is the value an operation
  returns; \<open>createDirectory\<close> below writes it out.
\<close>

type_synonym store = "(string \<times> INode) list"

abbreviation DATA_get :: "store \<Rightarrow> string \<Rightarrow> INode option" where
  "DATA_get s k \<equiv> map_of s k"

abbreviation DATA_set :: "string \<Rightarrow> INode \<Rightarrow> store \<Rightarrow> store" where
  "DATA_set k v s \<equiv> AList.update k v s"

abbreviation DATA_delete :: "string \<Rightarrow> store \<Rightarrow> store" where
  "DATA_delete k s \<equiv> AList.delete k s"

text \<open>The seed tree: the literal that initialises \<open>DATA\<close> (lines 4 to 64).\<close>

definition DATA_init :: store where
  "DATA_init =
    [(''root'', Directory ''root'' ''src'' [''index.tsx'', ''components'', ''types'']),
     (''index.tsx'', File ''index.tsx'' ''index.tsx''),
     (''components'', Directory ''components'' ''components'' [''button.tsx'']),
     (''button.tsx'', File ''button.tsx'' ''button.tsx''),
     (''types'', Directory ''types'' ''types'' [''file-types.tsx'', ''other-types.tsx'']),
     (''file-types.tsx'', File ''file-types.tsx'' ''file-types.tsx''),
     (''other-types.tsx'', File ''other-types.tsx'' ''other-types.tsx'')]"

subsection \<open>\<open>readINode\<close>\<close>

text \<open>
  \<open>readINode(id = "root")\<close> returns \<open>DATA.get(id) || null\<close>. An omitted argument is
  \<open>None\<close> and takes the default; the result \<open>None\<close> is \<open>null\<close> (a node is an object, so
  \<open>||\<close> replaces \<open>undefined\<close> only).
\<close>

definition readINode :: "store \<Rightarrow> string option \<Rightarrow> INode option" where
  "readINode s id_arg =
     (let i = (case id_arg of None \<Rightarrow> ''root'' | Some i \<Rightarrow> i) in DATA_get s i)"

subsection \<open>\<open>searchFiles\<close>\<close>

text \<open>
  \<open>String.prototype.toLowerCase\<close> belongs to the JavaScript engine, not to this
  repository. On a string of ASCII characters (codes below 128) it moves the letters
  \<open>A\<close> to \<open>Z\<close> (codes 65 to 90) to \<open>a\<close> to \<open>z\<close> and leaves every other character;
  \<open>toLowerCase_char\<close> is that step. On a string with a character outside ASCII it
  applies the case mapping of Unicode, which may touch any cased letter and may
  change the length of the string. That table is not modelled: it is the parameter
  \<open>unicodeLower\<close> of \<open>toLowerCase\<close>, and so of \<open>searchFiles\<close>, with nothing assumed
  about it. A string is a list of characters in which the codes below 128 are the
  ASCII characters and text outside ASCII stands as its bytes.
\<close>

fun isAscii :: "string \<Rightarrow> bool" where
  "isAscii [] = True"
| "isAscii (c # cs) = ((of_char c :: nat) < 128 \<and> isAscii cs)"

definition toLowerCase_char :: "char \<Rightarrow> char" where
  "toLowerCase_char c =
     (let n = (of_char c :: nat) in if 65 \<le> n \<and> n \<le> 90 then char_of (n + 32) else c)"

definition toLowerCase :: "(string \<Rightarrow> string) \<Rightarrow> string \<Rightarrow> string" where
  "toLowerCase unicodeLower str =
     (if isAscii str then map toLowerCase_char str else unicodeLower str)"

text \<open>
  What the specification calls case-insensitive, said without \<open>toLowerCase\<close>: two
  characters are the same letter when they are equal or when one is a capital of
  ASCII and the other is the small letter 32 codes above it. Two strings are equal up
  to case when they are related by \<open>list_all2 sameLetter\<close>.
\<close>

definition isUpper :: "char \<Rightarrow> bool" where
  "isUpper c = (65 \<le> (of_char c :: nat) \<and> (of_char c :: nat) \<le> 90)"

definition sameLetter :: "char \<Rightarrow> char \<Rightarrow> bool" where
  "sameLetter a b =
     (a = b \<or> (isUpper a \<and> (of_char b :: nat) = of_char a + 32)
            \<or> (isUpper b \<and> (of_char a :: nat) = of_char b + 32))"

text \<open>
  \<open>str.includes(q)\<close> (here \<open>includes_str\<close>): does \<open>q\<close> occur in \<open>str\<close> as a contiguous
  run of characters? \<open>startsWith\<close> compares \<open>q\<close> with the characters at the current
  position.
\<close>

fun startsWith :: "string \<Rightarrow> string \<Rightarrow> bool" where
  "startsWith str [] = True"
| "startsWith [] (q # qs) = False"
| "startsWith (c # cs) (q # qs) = (c = q \<and> startsWith cs qs)"

fun includes_str :: "string \<Rightarrow> string \<Rightarrow> bool" where
  "includes_str [] q = (q = [])"
| "includes_str (c # cs) q = (startsWith (c # cs) q \<or> includes_str cs q)"

text \<open>
  The loop \<open>for (const [id, node] of DATA.entries())\<close> pushes, in iteration order, one
  result for every node whose lowercased name includes the lowercased query. The
  result spreads the node and sets \<open>path: node.name\<close>.
\<close>

fun searchLoop ::
  "(string \<Rightarrow> string) \<Rightarrow> string \<Rightarrow> store \<Rightarrow> SearchResult list \<Rightarrow> SearchResult list" where
  "searchLoop unicodeLower searchQuery [] results = results"
| "searchLoop unicodeLower searchQuery ((i, n) # entries) results =
     (if includes_str (toLowerCase unicodeLower (name n)) searchQuery
      then searchLoop unicodeLower searchQuery entries (results @ [\<lparr>node = n, path = name n\<rparr>])
      else searchLoop unicodeLower searchQuery entries results)"

definition searchFiles :: "(string \<Rightarrow> string) \<Rightarrow> store \<Rightarrow> string \<Rightarrow> SearchResult list" where
  "searchFiles unicodeLower s query =
     (let searchQuery = toLowerCase unicodeLower query
      in searchLoop unicodeLower searchQuery s [])"

subsection \<open>\<open>createFile\<close> and \<open>createDirectory\<close>\<close>

text \<open>
  \<open>createFile(parentId, fileName, fileExtension = ".txt")\<close>. The new node is stored
  first; the parent is looked up afterwards, in the store that already holds the new
  node, and gains the new id at the end of its children when it is a directory. The
  function has no failing path: it always returns the new file.
\<close>

definition createFile :: "store \<Rightarrow> string \<Rightarrow> string \<Rightarrow> string option \<Rightarrow> INode \<times> store" where
  "createFile s parentId fileName ext_arg =
     (let fileExtension = (case ext_arg of None \<Rightarrow> ''.txt'' | Some e \<Rightarrow> e);
          newId = fileName @ fileExtension;
          newFile = File newId (fileName @ fileExtension);
          s1 = DATA_set newId newFile s
      in case DATA_get s1 parentId of
           Some (Directory pid pname pchildren) \<Rightarrow>
             (newFile, DATA_set parentId (Directory pid pname (pchildren @ [newId])) s1)
         | _ \<Rightarrow> (newFile, s1))"

text \<open>
  \<open>createDirectory(parentId, dirName)\<close>, built the same way. When \<open>parentId\<close> is the new
  id itself, \<open>DATA.get(parentId)\<close> is the object \<open>newDir\<close> that was just stored, the
  assignment to \<open>parent.children\<close> changes that object, and the function returns it
  with itself as its only child.
\<close>

definition createDirectory :: "store \<Rightarrow> string \<Rightarrow> string \<Rightarrow> INode \<times> store" where
  "createDirectory s parentId dirName =
     (let newId = dirName;
          newDir = Directory newId dirName [];
          s1 = DATA_set newId newDir s
      in case DATA_get s1 parentId of
           Some (Directory pid pname pchildren) \<Rightarrow>
             (let parent = Directory pid pname (pchildren @ [newId])
              in (if parentId = newId then parent else newDir, DATA_set parentId parent s1))
         | _ \<Rightarrow> (newDir, s1))"

subsection \<open>\<open>renameNode\<close>\<close>

text \<open>
  \<open>renameNode\<close> writes the new name into the node when \<open>DATA.get(nodeId)\<close> is defined and
  returns \<open>node!\<close>: the node, or \<open>undefined\<close> (here \<open>None\<close>) when the id is absent. The
  operator \<open>!\<close> is erased by the compiler and checks nothing at run time.
\<close>

definition set_name :: "string \<Rightarrow> INode \<Rightarrow> INode" where
  "set_name newName n =
     (case n of File i _ \<Rightarrow> File i newName | Directory i _ cs \<Rightarrow> Directory i newName cs)"

definition renameNode :: "store \<Rightarrow> string \<Rightarrow> string \<Rightarrow> INode option \<times> store" where
  "renameNode s nodeId newName =
     (case DATA_get s nodeId of
        Some n \<Rightarrow> (let n' = set_name newName n in (Some n', DATA_set nodeId n' s))
      | None \<Rightarrow> (None, s))"

subsection \<open>\<open>deleteNode\<close>\<close>

text \<open>
  \<open>deleteNode\<close> calls itself on every child of a directory before it deletes the
  directory. Nothing bounds the recursion: on a directory that is its own descendant
  (which \<open>createDirectory(d, d)\<close> builds) the recursion has no end, and the call
  gives no result. The model counts the depth of the recursion down from \<open>fuel\<close>,
  and \<open>None\<close> is a call that gives no result within that depth. \<open>deleteLoop\<close> is the loop
  \<open>for (const childId of node.children)\<close>; the result of each inner call is dropped.
\<close>

fun deleteNode :: "nat \<Rightarrow> store \<Rightarrow> string \<Rightarrow> (bool \<times> store) option"
  and deleteLoop :: "nat \<Rightarrow> store \<Rightarrow> string list \<Rightarrow> store option" where
  "deleteNode 0 s nodeId = None"
| "deleteNode (Suc fuel) s nodeId =
     (case DATA_get s nodeId of
        None \<Rightarrow> Some (False, s)
      | Some (File _ _) \<Rightarrow> Some (True, DATA_delete nodeId s)
      | Some (Directory _ _ cs) \<Rightarrow>
          (if length cs > 0
           then (case deleteLoop fuel s cs of
                   None \<Rightarrow> None
                 | Some s1 \<Rightarrow> Some (True, DATA_delete nodeId s1))
           else Some (True, DATA_delete nodeId s)))"
| "deleteLoop fuel s [] = Some s"
| "deleteLoop fuel s (childId # rest) =
     (case deleteNode fuel s childId of
        None \<Rightarrow> None
      | Some (_, s1) \<Rightarrow> deleteLoop fuel s1 rest)"

text \<open>
  A store is \<open>ranked\<close> by \<open>rank\<close> when every child listed by a directory has a smaller
  rank than the key of the directory: the child links then have no cycle, and
  \<open>rank\<close> bounds the depth below each key. The seed tree is ranked, with the root at
  rank 2.
\<close>

definition ranked :: "(string \<Rightarrow> nat) \<Rightarrow> store \<Rightarrow> bool" where
  "ranked rank s =
     (\<forall>(k, n) \<in> set s. case n of File _ _ \<Rightarrow> True
                                 | Directory _ _ cs \<Rightarrow> (\<forall>c \<in> set cs. rank c < rank k))"

definition seed_rank :: "string \<Rightarrow> nat" where
  "seed_rank k =
     (if k = ''root'' then 2 else if k = ''components'' \<or> k = ''types'' then 1 else 0)"

subsection \<open>\<open>getAllNodes\<close> and \<open>resetFileSystem\<close>\<close>

text \<open>\<open>getAllNodes\<close> returns \<open>new Map(DATA)\<close>: the same entries in the same order.\<close>

definition getAllNodes :: "store \<Rightarrow> store" where
  "getAllNodes s = s"

text \<open>
  \<open>resetFileSystem\<close> clears the table and stores the entries of its own literal
  \<open>initialData\<close> one by one, after rebuilding each node from its fields.
\<close>

definition initialData :: "(string \<times> INode) list" where
  "initialData =
    [(''root'', Directory ''root'' ''src'' [''index.tsx'', ''components'', ''types'']),
     (''index.tsx'', File ''index.tsx'' ''index.tsx''),
     (''components'', Directory ''components'' ''components'' [''button.tsx'']),
     (''button.tsx'', File ''button.tsx'' ''button.tsx''),
     (''types'', Directory ''types'' ''types'' [''file-types.tsx'', ''other-types.tsx'']),
     (''file-types.tsx'', File ''file-types.tsx'' ''file-types.tsx''),
     (''other-types.tsx'', File ''other-types.tsx'' ''other-types.tsx'')]"

definition rebuild :: "INode \<Rightarrow> INode" where
  "rebuild nodeData =
     (case nodeData of
        Directory i n cs \<Rightarrow> Directory i n cs
      | File i n \<Rightarrow> File i n)"

fun resetLoop :: "(string \<times> INode) list \<Rightarrow> store \<Rightarrow> store" where
  "resetLoop [] s = s"
| "resetLoop ((i, nodeData) # rest) s = resetLoop rest (DATA_set i (rebuild nodeData) s)"

definition resetFileSystem :: "store \<Rightarrow> store" where
  "resetFileSystem s = resetLoop initialData []"

section \<open>Properties\<close>

subsection \<open>Searching\<close>

lemma map_eq_map_rel:
  "map f xs = map f ys \<longleftrightarrow> list_all2 (\<lambda>x y. f x = f y) xs ys"
  by (induction xs arbitrary: ys) (auto simp: list_all2_Cons1 map_eq_Cons_conv)

text \<open>
  Two characters have the same lowercase exactly when they are the same letter.
\<close>

lemma lower_code:
  "(of_char (toLowerCase_char c) :: nat) =
     (if 65 \<le> (of_char c :: nat) \<and> (of_char c :: nat) \<le> 90 then of_char c + 32 else of_char c)"
  by (simp add: toLowerCase_char_def Let_def)

lemma lower_eq_iff: "toLowerCase_char a = toLowerCase_char b \<longleftrightarrow> sameLetter a b"
proof -
  define na nb where "na = (of_char a :: nat)" and "nb = (of_char b :: nat)"
  have ab: "a = b \<longleftrightarrow> na = nb" by (simp add: na_def nb_def)
  have "toLowerCase_char a = toLowerCase_char b \<longleftrightarrow>
        (of_char (toLowerCase_char a) :: nat) = of_char (toLowerCase_char b)"
    by simp
  also have "\<dots> \<longleftrightarrow> (if 65 \<le> na \<and> na \<le> 90 then na + 32 else na)
                   = (if 65 \<le> nb \<and> nb \<le> 90 then nb + 32 else nb)"
    by (simp only: lower_code na_def nb_def)
  also have "\<dots> \<longleftrightarrow> (na = nb \<or> (65 \<le> na \<and> na \<le> 90 \<and> nb = na + 32)
                        \<or> (65 \<le> nb \<and> nb \<le> 90 \<and> na = nb + 32))"
    by (auto split: if_splits)
  also have "\<dots> \<longleftrightarrow> sameLetter a b"
    by (simp only: sameLetter_def isUpper_def ab na_def nb_def conj_assoc)
  finally show ?thesis .
qed

lemma isAscii_lower: "isAscii str \<Longrightarrow> toLowerCase ul str = map toLowerCase_char str"
  by (simp add: toLowerCase_def)

lemma contains_map_iff:
  "(\<exists>u v. map f a = u @ map f q @ v) \<longleftrightarrow>
   (\<exists>u w v. a = u @ w @ v \<and> list_all2 (\<lambda>x y. f x = f y) w q)"
proof
  assume "\<exists>u v. map f a = u @ map f q @ v"
  then obtain u v where "map f a = u @ map f q @ v" by blast
  then have "\<exists>us vs. a = us @ vs \<and> u = map f us \<and> map f q @ v = map f vs"
    by (simp only: map_eq_append_conv)
  then obtain a1 r where a1: "a = a1 @ r" and r: "map f r = map f q @ v"
    by auto
  from r have "\<exists>us vs. r = us @ vs \<and> map f q = map f us \<and> v = map f vs"
    by (simp only: map_eq_append_conv)
  then obtain w a3 where "r = w @ a3" "map f w = map f q"
    by auto
  with a1 have "a = a1 @ w @ a3 \<and> list_all2 (\<lambda>x y. f x = f y) w q"
    by (simp add: map_eq_map_rel)
  then show "\<exists>u w v. a = u @ w @ v \<and> list_all2 (\<lambda>x y. f x = f y) w q" by blast
next
  assume "\<exists>u w v. a = u @ w @ v \<and> list_all2 (\<lambda>x y. f x = f y) w q"
  then obtain u w v where "a = u @ w @ v" "map f w = map f q"
    by (auto simp: map_eq_map_rel)
  then have "map f a = map f u @ map f q @ map f v" by simp
  then show "\<exists>u v. map f a = u @ map f q @ v" by blast
qed


lemma startsWith_iff: "startsWith str q \<longleftrightarrow> (\<exists>v. str = q @ v)"
  by (induction str q rule: startsWith.induct) auto

text \<open>\<open>includes_str\<close> is the substring test: \<open>q\<close> occurs in \<open>str\<close> between some \<open>u\<close> and \<open>v\<close>.\<close>

lemma includes_str_iff: "includes_str str q \<longleftrightarrow> (\<exists>u v. str = u @ q @ v)"
proof (induction str)
  case Nil
  then show ?case by simp
next
  case (Cons c cs)
  show ?case
  proof
    assume "includes_str (c # cs) q"
    then consider "startsWith (c # cs) q" | "includes_str cs q" by auto
    then show "\<exists>u v. c # cs = u @ q @ v"
    proof cases
      case 1
      then obtain v where "c # cs = q @ v" by (auto simp: startsWith_iff)
      then have "c # cs = [] @ q @ v" by simp
      then show ?thesis by blast
    next
      case 2
      then obtain u v where "cs = u @ q @ v" using Cons.IH by blast
      then have "c # cs = (c # u) @ q @ v" by simp
      then show ?thesis by blast
    qed
  next
    assume "\<exists>u v. c # cs = u @ q @ v"
    then obtain u v where uv: "c # cs = u @ q @ v" by blast
    show "includes_str (c # cs) q"
    proof (cases u)
      case Nil
      with uv have "startsWith (c # cs) q" by (auto simp: startsWith_iff)
      then show ?thesis by simp
    next
      case (Cons a u')
      with uv have "cs = u' @ q @ v" by simp
      then have "includes_str cs q" using Cons.IH by blast
      then show ?thesis by simp
    qed
  qed
qed

lemma includes_str_empty: "includes_str str []"
  by (induction str) auto

text \<open>The loop appends to \<open>results\<close> the matching entries, in the order of the table.\<close>

lemma searchLoop_acc:
  "searchLoop ul q s results =
     results @ map (\<lambda>(i, n). \<lparr>node = n, path = name n\<rparr>)
                   (filter (\<lambda>(i, n). includes_str (toLowerCase ul (name n)) q) s)"
  by (induction ul q s results rule: searchLoop.induct) auto

lemma map_node_searchLoop:
  "map node (searchLoop ul q s []) =
     filter (\<lambda>n. includes_str (toLowerCase ul (name n)) q) (map snd s)"
  by (induction s) (auto simp: searchLoop_acc)

lemma map_path_searchLoop:
  "map path (searchLoop ul q s []) = map name (map node (searchLoop ul q s []))"
  by (induction s) (auto simp: searchLoop_acc)

text \<open>
  On ASCII strings, the lowercased name includes the lowercased query exactly when
  some run of the name equals the query up to case.
\<close>

lemma ascii_match_iff:
  assumes "isAscii str" and "isAscii query"
  shows "(\<exists>u v. toLowerCase ul str = u @ toLowerCase ul query @ v) \<longleftrightarrow>
         (\<exists>u w v. str = u @ w @ v \<and> list_all2 sameLetter w query)"
proof -
  have "(\<lambda>x y. toLowerCase_char x = toLowerCase_char y) = sameLetter"
    by (intro ext) (rule lower_eq_iff)
  then show ?thesis
    using contains_map_iff [of toLowerCase_char str query] assms
    by (simp add: isAscii_lower)
qed

text \<open>
  Claim C9. \<open>searchFiles(query)\<close> returns a result for exactly those nodes of the store
  whose lowercased name contains the lowercased query as a substring: the nodes of
  the results are the nodes of the whole table, in table order, filtered by that
  test, whatever the case mapping outside ASCII is. No subtree is involved. The
  matching is case-insensitive: when the query and the names are ASCII text, the
  results are the nodes whose name has a run of characters equal to the query up to
  the case of each letter.
\<close>

theorem searchFiles_matches:
  "map node (searchFiles ul s query) =
     filter (\<lambda>n. \<exists>u v. toLowerCase ul (name n) = u @ toLowerCase ul query @ v) (map snd s)
   \<and> (isAscii query \<and> (\<forall>n \<in> set (map snd s). isAscii (name n)) \<longrightarrow>
        map node (searchFiles ul s query) =
          filter (\<lambda>n. \<exists>u w v. name n = u @ w @ v \<and> list_all2 sameLetter w query) (map snd s))"
proof -
  have general: "map node (searchFiles ul s query) =
     filter (\<lambda>n. \<exists>u v. toLowerCase ul (name n) = u @ toLowerCase ul query @ v) (map snd s)"
    by (simp add: searchFiles_def map_node_searchLoop includes_str_iff)
  have "filter (\<lambda>n. \<exists>u v. toLowerCase ul (name n) = u @ toLowerCase ul query @ v) (map snd s)
      = filter (\<lambda>n. \<exists>u w v. name n = u @ w @ v \<and> list_all2 sameLetter w query) (map snd s)"
    if "isAscii query" and "\<forall>n \<in> set (map snd s). isAscii (name n)"
  proof (rule filter_cong [OF refl])
    fix n
    assume "n \<in> set (map snd s)"
    with that(2) have "isAscii (name n)" by blast
    then show "(\<exists>u v. toLowerCase ul (name n) = u @ toLowerCase ul query @ v)
             = (\<exists>u w v. name n = u @ w @ v \<and> list_all2 sameLetter w query)"
      using that(1) by (rule ascii_match_iff)
  qed
  with general show ?thesis by simp
qed

text \<open>
  A table with the names \<open>ReadMe.md\<close> and \<open>notes.txt\<close>, searched for \<open>README\<close>: the
  one result is \<open>ReadMe.md\<close>, which differs from the query in the case of four letters.
\<close>

theorem searchFiles_matches_witness:
  "isAscii ''README''
   \<and> isAscii ''ReadMe.md'' \<and> isAscii ''notes.txt''
   \<and> map node (searchFiles id [(''ReadMe.md'', File ''ReadMe.md'' ''ReadMe.md''),
                               (''notes.txt'', File ''notes.txt'' ''notes.txt'')] ''README'')
       = [File ''ReadMe.md'' ''ReadMe.md'']
   \<and> filter (\<lambda>n. \<exists>u w v. name n = u @ w @ v \<and> list_all2 sameLetter w ''README'')
        (map snd [(''ReadMe.md'', File ''ReadMe.md'' ''ReadMe.md''),
                  (''notes.txt'', File ''notes.txt'' ''notes.txt'')])
       = [File ''ReadMe.md'' ''ReadMe.md'']"
proof -
  let ?s = "[(''ReadMe.md'', File ''ReadMe.md'' ''ReadMe.md''),
             (''notes.txt'', File ''notes.txt'' ''notes.txt'')]"
  have h1: "isAscii ''README''" by simp
  have h2: "\<forall>n \<in> set (map snd ?s). isAscii (name n)" by simp
  have run: "map node (searchFiles id ?s ''README'') = [File ''ReadMe.md'' ''ReadMe.md'']"
    by (simp add: searchFiles_def toLowerCase_def toLowerCase_char_def Let_def char_of_def
        bit_Suc_0_iff)
  from searchFiles_matches [of id ?s "''README''"] h1 h2
  have "map node (searchFiles id ?s ''README'') =
          filter (\<lambda>n. \<exists>u w v. name n = u @ w @ v \<and> list_all2 sameLetter w ''README'')
            (map snd ?s)"
    by blast
  with run h1 h2 show ?thesis by simp
qed

text \<open>
  Claim C10. With the empty query every node of the store is a result: the nodes of
  the results are the nodes of the table, and there are as many results as entries.
\<close>

theorem searchFiles_empty_query:
  "map node (searchFiles ul s []) = map snd s \<and> length (searchFiles ul s []) = length s"
  by (simp add: searchFiles_def searchLoop_acc toLowerCase_def includes_str_empty
      split_def comp_def)

text \<open>
  Claim C3. The claim asks for the resolved path \<open>src/components/button.tsx\<close> on the
  result of \<open>searchFiles("ton")\<close>. The code finds the one file \<open>button.tsx\<close>, and gives it
  the path \<open>button.tsx\<close>: in every result the path is the name of the node.
\<close>

theorem searchFiles_ton_path:
  "searchFiles ul DATA_init ''ton'' =
     [\<lparr>node = File ''button.tsx'' ''button.tsx'', path = ''button.tsx''\<rparr>]
   \<and> ''button.tsx'' \<noteq> ''src/components/button.tsx''
   \<and> map path (searchFiles ul s query) = map name (map node (searchFiles ul s query))"
proof -
  have "searchFiles ul DATA_init ''ton'' =
     [\<lparr>node = File ''button.tsx'' ''button.tsx'', path = ''button.tsx''\<rparr>]"
    by (simp add: searchFiles_def DATA_init_def toLowerCase_def toLowerCase_char_def)
  moreover have "map path (searchFiles ul s query) = map name (map node (searchFiles ul s query))"
    by (simp only: searchFiles_def Let_def map_path_searchLoop)
  ultimately show ?thesis by simp
qed

text \<open>On the seed tree the query \<open>TYPES\<close> finds the three nodes named with \<open>types\<close>.\<close>

lemma searchFiles_upper_query:
  "map node (searchFiles ul DATA_init ''TYPES'') =
     [Directory ''types'' ''types'' [''file-types.tsx'', ''other-types.tsx''],
      File ''file-types.tsx'' ''file-types.tsx'', File ''other-types.tsx'' ''other-types.tsx'']"
  by (simp add: searchFiles_def DATA_init_def toLowerCase_def toLowerCase_char_def Let_def
      char_of_def bit_Suc_0_iff)

subsection \<open>Resetting\<close>

text \<open>
  Claim C8. Whatever the store holds (so in particular after any sequence of create,
  rename and delete operations from the seed), \<open>resetFileSystem\<close> followed by
  \<open>getAllNodes\<close> gives the seed tree.
\<close>

theorem reset_yields_seed: "getAllNodes (resetFileSystem s) = DATA_init"
  by (simp add: getAllNodes_def resetFileSystem_def initialData_def rebuild_def DATA_init_def)

subsection \<open>Renaming\<close>

lemma set_name_fields:
  "name (set_name newName n) = newName"
  "node_id (set_name newName n) = node_id n"
  "type_of (set_name newName n) = type_of n"
  "children_of (set_name newName n) = children_of n"
  by (cases n; simp add: set_name_def)+

lemma keys_update:
  "map fst (DATA_set k v s) = (if DATA_get s k = None then map fst s @ [k] else map fst s)"
  by (simp add: update_keys map_of_eq_None_iff)

text \<open>
  Claim C7. For a \<open>nodeId\<close> that is in the store, \<open>renameNode\<close> changes the name of that
  node and nothing else: reading \<open>nodeId\<close> afterwards gives a node with the new name
  and the same id, type and children; every other entry is the same; so every
  children list of the table is the same, and so are the keys and their order.
\<close>

theorem renameNode_only_name:
  assumes "DATA_get s nodeId = Some n"
  shows "\<exists>n'. renameNode s nodeId newName = (Some n', DATA_set nodeId n' s)
           \<and> readINode (snd (renameNode s nodeId newName)) (Some nodeId) = Some n'
           \<and> name n' = newName \<and> node_id n' = node_id n \<and> type_of n' = type_of n
           \<and> children_of n' = children_of n
           \<and> (\<forall>k. k \<noteq> nodeId \<longrightarrow>
                 DATA_get (snd (renameNode s nodeId newName)) k = DATA_get s k)
           \<and> (\<forall>k. map_option children_of (DATA_get (snd (renameNode s nodeId newName)) k)
                    = map_option children_of (DATA_get s k))
           \<and> map fst (snd (renameNode s nodeId newName)) = map fst s"
proof -
  let ?n' = "set_name newName n"
  have r: "renameNode s nodeId newName = (Some ?n', DATA_set nodeId ?n' s)"
    using assms by (simp add: renameNode_def Let_def)
  have keys: "map fst (DATA_set nodeId ?n' s) = map fst s"
    using assms by (simp add: keys_update)
  have ch: "map_option children_of (DATA_get (DATA_set nodeId ?n' s) k)
              = map_option children_of (DATA_get s k)" for k
    using assms by (simp add: update_conv' set_name_fields)
  show ?thesis
    using r keys ch by (simp add: readINode_def update_conv' set_name_fields)
qed

theorem renameNode_only_name_witness:
  "DATA_get DATA_init ''index.tsx'' = Some (File ''index.tsx'' ''index.tsx'')
   \<and> readINode (snd (renameNode DATA_init ''index.tsx'' ''main.tsx'')) (Some ''index.tsx'')
       = Some (File ''index.tsx'' ''main.tsx'')
   \<and> readINode (snd (renameNode DATA_init ''index.tsx'' ''main.tsx'')) None
       = Some (Directory ''root'' ''src'' [''index.tsx'', ''components'', ''types''])"
proof -
  have h: "DATA_get DATA_init ''index.tsx'' = Some (File ''index.tsx'' ''index.tsx'')"
    by (simp add: DATA_init_def)
  from renameNode_only_name [OF h, of "''main.tsx''"]
  obtain n' where
    "readINode (snd (renameNode DATA_init ''index.tsx'' ''main.tsx'')) (Some ''index.tsx'') = Some n'"
    "name n' = ''main.tsx''" "node_id n' = ''index.tsx''" "type_of n' = ''file''"
    "\<forall>k. k \<noteq> ''index.tsx'' \<longrightarrow>
        DATA_get (snd (renameNode DATA_init ''index.tsx'' ''main.tsx'')) k = DATA_get DATA_init k"
    by auto
  moreover have "n' = File ''index.tsx'' ''main.tsx''"
    using calculation(2,3,4) by (cases n') auto
  moreover have "DATA_get DATA_init ''root'' =
      Some (Directory ''root'' ''src'' [''index.tsx'', ''components'', ''types''])"
    by (simp add: DATA_init_def)
  ultimately show ?thesis using h by (simp add: readINode_def)
qed

text \<open>
  Claim C5, as amended. For a \<open>nodeId\<close> that is not in the store, \<open>renameNode\<close> signals
  no error: it returns \<open>undefined\<close>, and the store is unchanged. (The claim asked for a
  \<open>NotFound\<close> failure in place of the silent \<open>undefined\<close>.)
\<close>

theorem renameNode_absent:
  "DATA_get s nodeId = None \<Longrightarrow> renameNode s nodeId newName = (None, s)"
  by (simp add: renameNode_def)

theorem renameNode_absent_witness:
  "DATA_get DATA_init ''missing'' = None
   \<and> renameNode DATA_init ''missing'' ''x'' = (None, DATA_init)"
proof -
  have h: "DATA_get DATA_init ''missing'' = None" by (simp add: DATA_init_def)
  show ?thesis using h renameNode_absent [OF h, of "''x''"] by simp
qed

text \<open>On the seed tree, renaming the absent id \<open>nope\<close> returns \<open>undefined\<close>.\<close>

theorem renameNode_absent_counterexample:
  "readINode DATA_init (Some ''nope'') = None
   \<and> fst (renameNode DATA_init ''nope'' ''x.tsx'') = None"
  by (simp add: renameNode_def readINode_def DATA_init_def)

subsection \<open>Creating\<close>

text \<open>
  When the parent is absent or a file, \<open>createFile\<close> stores the new file and stops.
\<close>

lemma createFile_no_dir_parent:
  assumes "DATA_get s parentId = None \<or> (\<exists>i n. DATA_get s parentId = Some (File i n))"
  shows "createFile s parentId fileName ext_arg =
           (let newId = fileName @ (case ext_arg of None \<Rightarrow> ''.txt'' | Some e \<Rightarrow> e)
            in (File newId newId, DATA_set newId (File newId newId) s))"
  using assms by (auto simp: createFile_def Let_def update_conv' split: option.splits INode.splits)

text \<open>
  Claim C2, as amended. For a \<open>parentId\<close> that is absent from the store or is the id of
  a file, \<open>createFile\<close> signals no error: it returns the new file node, whose id and
  name are \<open>fileName\<close> followed by \<open>fileExtension\<close>, and it links the new id to no
  parent, since every entry of the table under another key than the new id is as it
  was. (The claim asked for a failure and an unchanged store.)
\<close>

theorem createFile_bad_parent:
  assumes "DATA_get s parentId = None \<or> (\<exists>i n. DATA_get s parentId = Some (File i n))"
      and "newId = fileName @ (case ext_arg of None \<Rightarrow> ''.txt'' | Some e \<Rightarrow> e)"
  shows "fst (createFile s parentId fileName ext_arg) = File newId newId
         \<and> (\<forall>k. k \<noteq> newId \<longrightarrow>
               DATA_get (snd (createFile s parentId fileName ext_arg)) k = DATA_get s k)"
  using assms(2) createFile_no_dir_parent [OF assms(1), of fileName ext_arg]
  by (simp add: Let_def update_conv')

theorem createFile_bad_parent_witness:
  "(DATA_get DATA_init ''index.tsx'' = None
      \<or> (\<exists>i n. DATA_get DATA_init ''index.tsx'' = Some (File i n)))
   \<and> ''x.txt'' = ''x'' @ (case None of None \<Rightarrow> ''.txt'' | Some e \<Rightarrow> e)
   \<and> fst (createFile DATA_init ''index.tsx'' ''x'' None) = File ''x.txt'' ''x.txt''
   \<and> DATA_get (snd (createFile DATA_init ''index.tsx'' ''x'' None)) ''root''
       = DATA_get DATA_init ''root''"
proof -
  have h1: "DATA_get DATA_init ''index.tsx'' = None
      \<or> (\<exists>i n. DATA_get DATA_init ''index.tsx'' = Some (File i n))"
    by (simp add: DATA_init_def)
  have h2: "''x.txt'' = ''x'' @ (case None of None \<Rightarrow> ''.txt'' | Some e \<Rightarrow> e)" by simp
  show ?thesis using h1 h2 createFile_bad_parent [OF h1 h2] by simp
qed

text \<open>
  On the seed tree, \<open>createFile("nope", "x")\<close> (absent parent) and
  \<open>createFile("index.tsx", "x")\<close> (file parent) both return the file \<open>x.txt\<close> and leave
  the table with an eighth entry.
\<close>

theorem createFile_bad_parent_counterexample:
  "DATA_get DATA_init ''nope'' = None
   \<and> createFile DATA_init ''nope'' ''x'' None
       = (File ''x.txt'' ''x.txt'', DATA_init @ [(''x.txt'', File ''x.txt'' ''x.txt'')])
   \<and> DATA_get DATA_init ''index.tsx'' = Some (File ''index.tsx'' ''index.tsx'')
   \<and> createFile DATA_init ''index.tsx'' ''x'' None
       = (File ''x.txt'' ''x.txt'', DATA_init @ [(''x.txt'', File ''x.txt'' ''x.txt'')])"
  by (simp add: createFile_def DATA_init_def Let_def)

text \<open>The entry under the new id, and the keys of the table, after a creation.\<close>

lemma createFile_newId:
  "DATA_get (snd (createFile s parentId fileName ext_arg))
        (fileName @ (case ext_arg of None \<Rightarrow> ''.txt'' | Some e \<Rightarrow> e))
     = Some (File (fileName @ (case ext_arg of None \<Rightarrow> ''.txt'' | Some e \<Rightarrow> e))
                  (fileName @ (case ext_arg of None \<Rightarrow> ''.txt'' | Some e \<Rightarrow> e)))"
  by (auto simp: createFile_def Let_def update_conv' split: option.splits INode.splits)

lemma createFile_keys:
  "map fst (snd (createFile s parentId fileName ext_arg)) =
     (if DATA_get s (fileName @ (case ext_arg of None \<Rightarrow> ''.txt'' | Some e \<Rightarrow> e)) = None
      then map fst s @ [fileName @ (case ext_arg of None \<Rightarrow> ''.txt'' | Some e \<Rightarrow> e)]
      else map fst s)"
  by (simp add: createFile_def Let_def keys_update split: option.splits INode.splits)

lemma createDirectory_newId:
  "DATA_get (snd (createDirectory s parentId dirName)) dirName
     = Some (Directory dirName dirName (if parentId = dirName then [dirName] else []))"
  by (auto simp: createDirectory_def Let_def update_conv' split: option.splits INode.splits)

lemma createDirectory_keys:
  "map fst (snd (createDirectory s parentId dirName)) =
     (if DATA_get s dirName = None then map fst s @ [dirName] else map fst s)"
  by (simp add: createDirectory_def Let_def keys_update split: option.splits INode.splits)

text \<open>
  Claim C6, as amended. \<open>createFile\<close> and \<open>createDirectory\<close> take \<open>fileName\<close> followed by
  \<open>fileExtension\<close>, and \<open>dirName\<close>, as the id without looking for it in the store. When
  the id is already there, the new node replaces the node stored under it, the
  operation returns the new node, and the table keeps its keys: no other id is made
  and nothing is rejected.
\<close>

theorem create_overwrites:
  assumes "newId = fileName @ (case ext_arg of None \<Rightarrow> ''.txt'' | Some e \<Rightarrow> e)"
  shows "(DATA_get s newId \<noteq> None \<longrightarrow>
            fst (createFile s parentId fileName ext_arg) = File newId newId
          \<and> DATA_get (snd (createFile s parentId fileName ext_arg)) newId = Some (File newId newId)
          \<and> map fst (snd (createFile s parentId fileName ext_arg)) = map fst s)
       \<and> (DATA_get s dirName \<noteq> None \<longrightarrow>
            DATA_get (snd (createDirectory s parentId dirName)) dirName
              = Some (Directory dirName dirName (if parentId = dirName then [dirName] else []))
          \<and> fst (createDirectory s parentId dirName)
              = Directory dirName dirName (if parentId = dirName then [dirName] else [])
          \<and> map fst (snd (createDirectory s parentId dirName)) = map fst s)"
proof -
  have f: "fst (createFile s parentId fileName ext_arg) = File newId newId"
    using assms by (auto simp: createFile_def Let_def split: option.splits INode.splits)
  have d: "fst (createDirectory s parentId dirName)
              = Directory dirName dirName (if parentId = dirName then [dirName] else [])"
    by (auto simp: createDirectory_def Let_def update_conv' split: option.splits INode.splits)
  show ?thesis
    using assms f d createFile_newId [of s parentId fileName ext_arg]
      createDirectory_newId [of s parentId dirName]
    by (auto simp: createFile_keys createDirectory_keys)
qed

theorem create_overwrites_witness:
  "''button.tsx'' = ''button'' @ (case Some ''.tsx'' of None \<Rightarrow> ''.txt'' | Some e \<Rightarrow> e)
   \<and> DATA_get DATA_init ''button.tsx'' \<noteq> None
   \<and> DATA_get DATA_init ''components'' \<noteq> None
   \<and> fst (createFile DATA_init ''root'' ''button'' (Some ''.tsx'')) = File ''button.tsx'' ''button.tsx''
   \<and> map fst (snd (createFile DATA_init ''root'' ''button'' (Some ''.tsx''))) = map fst DATA_init
   \<and> DATA_get (snd (createDirectory DATA_init ''root'' ''components'')) ''components''
       = Some (Directory ''components'' ''components'' [])
   \<and> map fst (snd (createDirectory DATA_init ''root'' ''components'')) = map fst DATA_init"
proof -
  have h: "''button.tsx'' = ''button'' @ (case Some ''.tsx'' of None \<Rightarrow> ''.txt'' | Some e \<Rightarrow> e)"
    by simp
  have p1: "DATA_get DATA_init ''button.tsx'' \<noteq> None" by (simp add: DATA_init_def)
  have p2: "DATA_get DATA_init ''components'' \<noteq> None" by (simp add: DATA_init_def)
  show ?thesis
    using h p1 p2
      create_overwrites [OF h, where s = DATA_init and parentId = "''root''"
        and dirName = "''components''"]
    by simp
qed

text \<open>
  On the seed tree, creating a directory or a file whose id is \<open>components\<close> replaces
  the directory \<open>components\<close>, with its child \<open>button.tsx\<close>, by the new node.
\<close>

theorem create_overwrites_counterexample:
  "DATA_get DATA_init ''components''
     = Some (Directory ''components'' ''components'' [''button.tsx''])
   \<and> DATA_get (snd (createDirectory DATA_init ''types'' ''components'')) ''components''
       = Some (Directory ''components'' ''components'' [])
   \<and> DATA_get (snd (createFile DATA_init ''types'' ''components'' (Some ''''))) ''components''
       = Some (File ''components'' ''components'')
   \<and> map fst (snd (createDirectory DATA_init ''types'' ''components'')) = map fst DATA_init
   \<and> map fst (snd (createFile DATA_init ''types'' ''components'' (Some ''''))) = map fst DATA_init"
  by (simp add: createDirectory_def createFile_def DATA_init_def Let_def)

subsection \<open>Deleting\<close>

text \<open>
  A call that returns has removed the entry of \<open>nodeId\<close>, and its result says whether
  there was one.
\<close>

lemma deleteNode_removes:
  "deleteNode fuel s nodeId = Some (b, s') \<Longrightarrow>
     DATA_get s' nodeId = None \<and> b = (DATA_get s nodeId \<noteq> None)"
  by (cases fuel) (auto simp: delete_conv' split: option.splits INode.splits if_splits)

text \<open>More fuel never changes the result of a call that returns.\<close>

lemma fuel_Suc:
  "deleteNode fuel s nodeId = Some r \<Longrightarrow> deleteNode (Suc fuel) s nodeId = Some r"
  "deleteLoop fuel s cs = Some s' \<Longrightarrow> deleteLoop (Suc fuel) s cs = Some s'"
proof (induction fuel s nodeId and fuel s cs arbitrary: r and s' rule: deleteNode_deleteLoop.induct)
  case (1 s nodeId)
  then show ?case by simp
next
  case (2 fuel s nodeId)
  show ?case
  proof (cases "DATA_get s nodeId")
    case None
    with "2.prems" show ?thesis by simp
  next
    case (Some n)
    show ?thesis
    proof (cases n)
      case (File i nm)
      with Some "2.prems" show ?thesis by simp
    next
      case (Directory i nm cs)
      show ?thesis
      proof (cases "0 < length cs")
        case True
        with Some Directory "2.prems" obtain s1 where
          s1: "deleteLoop fuel s cs = Some s1" and r: "r = (True, DATA_delete nodeId s1)"
          by (auto split: option.splits)
        from "2.IH" [OF Some Directory True s1]
        have "deleteLoop (Suc fuel) s cs = Some s1" .
        with Some Directory True r show ?thesis by simp
      next
        case False
        with Some Directory "2.prems" show ?thesis by simp
      qed
    qed
  qed
next
  case (3 fuel s)
  then show ?case by simp
next
  case (4 fuel s childId rest)
  then show ?case
    by (cases fuel) (auto split: option.splits)
qed

lemma fuel_mono:
  "deleteNode fuel s nodeId = Some r \<Longrightarrow> deleteNode (fuel + k) s nodeId = Some r"
  by (induction k) (auto dest: fuel_Suc(1))

text \<open>
  On a ranked store the recursion is bounded by the rank: a call with more fuel than
  the rank of \<open>nodeId\<close> returns, and what it leaves is part of what it found.
\<close>

lemma ranked_subset: "ranked rank s \<Longrightarrow> set s' \<subseteq> set s \<Longrightarrow> ranked rank s'"
  by (auto simp: ranked_def)

lemma set_delete_subset: "set (DATA_delete k s) \<subseteq> set s"
  by (auto simp: AList.delete_eq)

lemma deleteLoop_returns:
  assumes IH: "\<And>s c. ranked rank s \<Longrightarrow> rank c < fuel \<Longrightarrow>
                 \<exists>b s'. deleteNode fuel s c = Some (b, s') \<and> set s' \<subseteq> set s"
  shows "ranked rank s \<Longrightarrow> \<forall>c \<in> set cs. rank c < fuel \<Longrightarrow>
           \<exists>s'. deleteLoop fuel s cs = Some s' \<and> set s' \<subseteq> set s"
proof (induction cs arbitrary: s)
  case Nil
  then show ?case by simp
next
  case (Cons c cs)
  from IH [of s c] Cons.prems obtain b s1 where
    s1: "deleteNode fuel s c = Some (b, s1)" "set s1 \<subseteq> set s" by auto
  then have "ranked rank s1" using Cons.prems(1) ranked_subset by blast
  with Cons.IH [of s1] Cons.prems(2) obtain s' where
    "deleteLoop fuel s1 cs = Some s'" "set s' \<subseteq> set s1" by auto
  with s1 show ?case by auto
qed

lemma deleteNode_returns:
  "ranked rank s \<Longrightarrow> rank nodeId < fuel \<Longrightarrow>
     \<exists>b s'. deleteNode fuel s nodeId = Some (b, s') \<and> set s' \<subseteq> set s"
proof (induction fuel arbitrary: s nodeId)
  case 0
  then show ?case by simp
next
  case (Suc fuel)
  show ?case
  proof (cases "DATA_get s nodeId")
    case None
    then show ?thesis by auto
  next
    case (Some n)
    show ?thesis
    proof (cases n)
      case (File i nm)
      with Some show ?thesis using set_delete_subset by auto
    next
      case (Directory i nm cs)
      with Some have "(nodeId, Directory i nm cs) \<in> set s" by (simp add: map_of_SomeD)
      with Suc.prems(1) have "\<forall>c \<in> set cs. rank c < rank nodeId"
        by (auto simp: ranked_def)
      with Suc.prems(2) have small: "\<forall>c \<in> set cs. rank c < fuel" by auto
      from deleteLoop_returns [of rank fuel s cs] Suc.IH Suc.prems(1) small
      obtain s1 where s1: "deleteLoop fuel s cs = Some s1" "set s1 \<subseteq> set s" by blast
      have "set (DATA_delete nodeId s1) \<subseteq> set s" "set (DATA_delete nodeId s) \<subseteq> set s"
        using s1(2) set_delete_subset by blast+
      with Some Directory s1 show ?thesis by auto
    qed
  qed
qed

lemma ranked_seed: "ranked seed_rank DATA_init"
  by (simp add: ranked_def DATA_init_def seed_rank_def)

lemma delete_components_2:
  "deleteNode 2 DATA_init ''components'' = Some (True,
    [(''root'', Directory ''root'' ''src'' [''index.tsx'', ''components'', ''types'']),
     (''index.tsx'', File ''index.tsx'' ''index.tsx''),
     (''types'', Directory ''types'' ''types'' [''file-types.tsx'', ''other-types.tsx'']),
     (''file-types.tsx'', File ''file-types.tsx'' ''file-types.tsx''),
     (''other-types.tsx'', File ''other-types.tsx'' ''other-types.tsx'')])"
  by (simp add: DATA_init_def numeral_2_eq_2)

text \<open>
  Claim C1, as amended. On the seed tree \<open>deleteNode("components")\<close> returns \<open>true\<close>
  (at every recursion depth from 2 on) and removes the directory and its descendant
  from the table: afterwards \<open>readINode("components")\<close> and \<open>readINode("button.tsx")\<close>
  both give \<open>null\<close>, and the five other nodes are still in the table. (The claim also
  asked that \<open>components\<close> leave the children of \<open>root\<close>.)
\<close>

theorem delete_components_cascades:
  assumes "2 \<le> fuel"
  shows "\<exists>s'. deleteNode fuel DATA_init ''components'' = Some (True, s')
           \<and> readINode s' (Some ''components'') = None
           \<and> readINode s' (Some ''button.tsx'') = None
           \<and> map fst s' =
               [''root'', ''index.tsx'', ''types'', ''file-types.tsx'', ''other-types.tsx'']"
proof -
  from assms obtain k where k: "fuel = 2 + k" using le_Suc_ex by blast
  show ?thesis
    using fuel_mono [OF delete_components_2, of k] k by (simp add: readINode_def)
qed

theorem delete_components_cascades_witness:
  "(2::nat) \<le> 2
   \<and> (\<exists>s'. deleteNode 2 DATA_init ''components'' = Some (True, s')
           \<and> readINode s' (Some ''components'') = None
           \<and> readINode s' (Some ''button.tsx'') = None
           \<and> map fst s' =
               [''root'', ''index.tsx'', ''types'', ''file-types.tsx'', ''other-types.tsx''])"
proof -
  have h: "(2::nat) \<le> 2" by simp
  show ?thesis using h delete_components_cascades [OF h] by simp
qed

text \<open>
  After \<open>deleteNode("components")\<close> on the seed tree, the entry of \<open>root\<close> is the one of
  the seed: its children still list \<open>components\<close>.
\<close>

theorem delete_components_counterexample:
  "deleteNode 2 DATA_init ''components'' = Some (True,
    [(''root'', Directory ''root'' ''src'' [''index.tsx'', ''components'', ''types'']),
     (''index.tsx'', File ''index.tsx'' ''index.tsx''),
     (''types'', Directory ''types'' ''types'' [''file-types.tsx'', ''other-types.tsx'']),
     (''file-types.tsx'', File ''file-types.tsx'' ''file-types.tsx''),
     (''other-types.tsx'', File ''other-types.tsx'' ''other-types.tsx'')])
   \<and> readINode
        [(''root'', Directory ''root'' ''src'' [''index.tsx'', ''components'', ''types'']),
         (''index.tsx'', File ''index.tsx'' ''index.tsx''),
         (''types'', Directory ''types'' ''types'' [''file-types.tsx'', ''other-types.tsx'']),
         (''file-types.tsx'', File ''file-types.tsx'' ''file-types.tsx''),
         (''other-types.tsx'', File ''other-types.tsx'' ''other-types.tsx'')] (Some ''root'')
       = Some (Directory ''root'' ''src'' [''index.tsx'', ''components'', ''types''])
   \<and> ''components'' \<in> set [''index.tsx'', ''components'', ''types'']"
  by (simp add: DATA_init_def readINode_def numeral_2_eq_2)

text \<open>
  Claim C4, as amended. \<open>deleteNode\<close> treats \<open>root\<close> as any other id and rejects
  nothing: on every store that holds \<open>root\<close> and whose child links are ranked (so have
  no cycle), \<open>deleteNode("root")\<close> returns \<open>true\<close>, given a recursion depth above the
  rank of \<open>root\<close>, and \<open>root\<close> is no longer in the table.
\<close>

theorem deleteNode_root_not_rejected:
  assumes "ranked rank s" and "DATA_get s ''root'' \<noteq> None" and "rank ''root'' < fuel"
  shows "\<exists>s'. deleteNode fuel s ''root'' = Some (True, s')
           \<and> readINode s' (Some ''root'') = None"
proof -
  from deleteNode_returns [OF assms(1,3)] obtain b s' where
    r: "deleteNode fuel s ''root'' = Some (b, s')" by blast
  from deleteNode_removes [OF r] assms(2) r show ?thesis
    by (simp add: readINode_def)
qed

theorem deleteNode_root_not_rejected_witness:
  "ranked seed_rank DATA_init \<and> DATA_get DATA_init ''root'' \<noteq> None \<and> seed_rank ''root'' < 3
   \<and> (\<exists>s'. deleteNode 3 DATA_init ''root'' = Some (True, s')
           \<and> readINode s' (Some ''root'') = None)"
proof -
  have h2: "DATA_get DATA_init ''root'' \<noteq> None" by (simp add: DATA_init_def)
  have h3: "seed_rank ''root'' < 3" by (simp add: seed_rank_def)
  show ?thesis
    using ranked_seed h2 h3 deleteNode_root_not_rejected [OF ranked_seed h2 h3] by simp
qed

text \<open>On the seed tree \<open>deleteNode("root")\<close> returns \<open>true\<close> and empties the table.\<close>

theorem deleteNode_root_counterexample:
  "readINode DATA_init (Some ''root'') \<noteq> None
   \<and> deleteNode 3 DATA_init ''root'' = Some (True, [])
   \<and> readINode [] (Some ''root'') = None"
  by (simp add: DATA_init_def readINode_def numeral_3_eq_3)

subsection \<open>The table as a list\<close>

text \<open>
  A \<open>Map\<close> holds each key once. The seed does, and every operation keeps it so: the
  lists that the operations produce are tables.
\<close>

lemma distinct_DATA_init: "distinct (map fst DATA_init)"
  by (simp add: DATA_init_def)

lemma distinct_createFile:
  "distinct (map fst s) \<Longrightarrow> distinct (map fst (snd (createFile s parentId fileName ext_arg)))"
  by (simp add: createFile_keys map_of_eq_None_iff)

lemma distinct_createDirectory:
  "distinct (map fst s) \<Longrightarrow> distinct (map fst (snd (createDirectory s parentId dirName)))"
  by (simp add: createDirectory_keys map_of_eq_None_iff)

lemma distinct_renameNode:
  "distinct (map fst s) \<Longrightarrow> distinct (map fst (snd (renameNode s nodeId newName)))"
  by (auto simp: renameNode_def Let_def keys_update split: option.splits)

lemma distinct_deleteNode:
  "deleteNode fuel s nodeId = Some r \<Longrightarrow> distinct (map fst s) \<Longrightarrow> distinct (map fst (snd r))"
  "deleteLoop fuel s cs = Some s' \<Longrightarrow> distinct (map fst s) \<Longrightarrow> distinct (map fst s')"
proof (induction fuel s nodeId and fuel s cs arbitrary: r and s' rule: deleteNode_deleteLoop.induct)
  case (1 s nodeId)
  then show ?case by simp
next
  case (2 fuel s nodeId)
  show ?case
  proof (cases "DATA_get s nodeId")
    case None
    with "2.prems" show ?thesis by auto
  next
    case (Some n)
    show ?thesis
    proof (cases n)
      case (File i nm)
      with Some "2.prems" show ?thesis by (auto simp: distinct_delete)
    next
      case (Directory i nm cs)
      show ?thesis
      proof (cases "0 < length cs")
        case True
        with Some Directory "2.prems" obtain s1 where
          s1: "deleteLoop fuel s cs = Some s1" and r: "r = (True, DATA_delete nodeId s1)"
          by (auto split: option.splits)
        from "2.IH" [OF Some Directory True s1 "2.prems"(2)]
        have "distinct (map fst s1)" .
        with r show ?thesis by (simp add: distinct_delete)
      next
        case False
        with Some Directory "2.prems" show ?thesis by (auto simp: distinct_delete)
      qed
    qed
  qed
next
  case (3 fuel s)
  then show ?case by simp
next
  case (4 fuel s childId rest)
  from "4.prems"(1) obtain b s1 where
    s1: "deleteNode fuel s childId = Some (b, s1)" and rest: "deleteLoop fuel s1 rest = Some s'"
    by (auto split: option.splits)
  from "4.IH"(1) [OF s1 "4.prems"(2)] have "distinct (map fst s1)" by simp
  from "4.IH"(2) [OF s1 _ rest this] show ?case by simp
qed

end
